theory Spec2Isabelle
  imports Main
begin

section \<open>The UI layer stack of \<open>src/ui_manager.cpp\<close>\<close>

text \<open>
  The file keeps one process-wide vector \<open>ui_stack\<close> of references to live
  \<open>ui_adaptor\<close> objects (index 0 is the bottom layer, the last element the topmost one)
  and mutates the objects through these references. The embedding therefore has an
  explicit store: objects live at addresses, the stack is a list of addresses, and every
  operation takes the state and returns the updated one.
\<close>

subsection \<open>Data\<close>

text \<open>
  \<open>point\<close> and \<open>rectangle<point>\<close> come from \<open>point.h\<close>. Coordinates are C++
  \<open>int\<close>; the code compares them and adds them once (in \<open>position\<close>), where a signed
  overflow would be undefined behaviour, so they are modelled as mathematical integers.
  The fields \<open>x\<close> and \<open>y\<close> are called \<open>pt_x\<close> and \<open>pt_y\<close>.
\<close>

record point =
  pt_x :: int
  pt_y :: int

record rectangle =
  p_min :: point
  p_max :: point

definition mk_point :: "int \<Rightarrow> int \<Rightarrow> point" where
  "mk_point a b = \<lparr>pt_x = a, pt_y = b\<rparr>"

definition mk_rectangle :: "point \<Rightarrow> point \<Rightarrow> rectangle" where
  "mk_rectangle a b = \<lparr>p_min = a, p_max = b\<rparr>"

text \<open>
  Modelled from the spec: \<open>operator+\<close> on points is declared in \<open>point.h\<close>, which is not
  part of the sources at hand; the spec writes the new rectangle as going from
  \<open>topLeft\<close> to \<open>topLeft + size\<close>, the componentwise sum.
\<close>

definition point_add :: "point \<Rightarrow> point \<Rightarrow> point" where
  "point_add a b = mk_point (pt_x a + pt_x b) (pt_y a + pt_y b)"

text \<open>
  The two fields of \<open>window_dimensions\<close> (declared with the tiles backend, not in the
  sources at hand) that \<open>position\<close> reads when \<open>TILES\<close> is defined.
\<close>

record window_dimensions =
  window_pos_pixel :: point
  window_size_pixel :: point

type_synonym addr = nat

text \<open>
  A callback is a \<open>std::function\<close> that may do anything to the UI state. The object
  stores which callback is registered (\<open>None\<close> is the empty function); what a callback
  does is given by the \<open>callbacks\<close> table below.
\<close>

type_synonym cb_id = nat

record ui_adaptor =
  dimensions :: rectangle
  disabling_uis_below :: bool
  invalidated :: bool
  deferred_resize :: bool
  redraw_cb :: "cb_id option"
  screen_resized_cb :: "cb_id option"

record ui_state =
  heap :: "addr \<Rightarrow> ui_adaptor"
  ui_stack :: "addr list"
  test_mode :: bool

record callbacks =
  run_redraw_cb :: "cb_id \<Rightarrow> addr \<Rightarrow> ui_state \<Rightarrow> ui_state"
  run_screen_resized_cb :: "cb_id \<Rightarrow> addr \<Rightarrow> ui_state \<Rightarrow> ui_state"

subsection \<open>Rectangle geometry\<close>

definition contains :: "rectangle \<Rightarrow> rectangle \<Rightarrow> bool" where
  "contains lhs rhs \<longleftrightarrow>
     pt_x (p_min rhs) \<ge> pt_x (p_min lhs) \<and> pt_x (p_max rhs) \<le> pt_x (p_max lhs) \<and>
     pt_y (p_min rhs) \<ge> pt_y (p_min lhs) \<and> pt_y (p_max rhs) \<le> pt_y (p_max lhs)"

definition overlap :: "rectangle \<Rightarrow> rectangle \<Rightarrow> bool" where
  "overlap lhs rhs \<longleftrightarrow>
     pt_x (p_min lhs) < pt_x (p_max rhs) \<and> pt_y (p_min lhs) < pt_y (p_max rhs) \<and>
     pt_x (p_min rhs) < pt_x (p_max lhs) \<and> pt_y (p_min rhs) < pt_y (p_max lhs)"

text \<open>The guard at the head of \<open>ui_adaptor::invalidate\<close>.\<close>

definition degenerate :: "rectangle \<Rightarrow> bool" where
  "degenerate rect \<longleftrightarrow>
     pt_x (p_min rect) \<ge> pt_x (p_max rect) \<or> pt_y (p_min rect) \<ge> pt_y (p_max rect)"

subsection \<open>Writing a flag through a reference\<close>

definition set_invalidated :: "addr \<Rightarrow> bool \<Rightarrow> (addr \<Rightarrow> ui_adaptor) \<Rightarrow> (addr \<Rightarrow> ui_adaptor)" where
  "set_invalidated a b h = h(a := (h a)\<lparr>invalidated := b\<rparr>)"

definition set_deferred_resize :: "addr \<Rightarrow> bool \<Rightarrow> (addr \<Rightarrow> ui_adaptor) \<Rightarrow> (addr \<Rightarrow> ui_adaptor)" where
  "set_deferred_resize a b h = h(a := (h a)\<lparr>deferred_resize := b\<rparr>)"

definition set_dimensions :: "addr \<Rightarrow> rectangle \<Rightarrow> (addr \<Rightarrow> ui_adaptor) \<Rightarrow> (addr \<Rightarrow> ui_adaptor)" where
  "set_dimensions a r h = h(a := (h a)\<lparr>dimensions := r\<rparr>)"

subsection \<open>\<open>invalidation_consistency_and_optimization\<close>\<close>

text \<open>
  The reverse scan for the topmost layer with \<open>disabling_uis_below\<close>: \<open>rfirst\<close> is what
  is left of the reversed stack when the scan stops, and \<open>first\<close> is the index of the
  layer it stopped at, or 0 when it ran off the bottom.
\<close>

definition first_enabled :: "(addr \<Rightarrow> ui_adaptor) \<Rightarrow> addr list \<Rightarrow> nat" where
  "first_enabled h stk =
     (let rfirst = dropWhile (\<lambda>a. \<not> disabling_uis_below (h a)) (rev stk)
      in if rfirst = [] then 0 else length rfirst - 1)"

text \<open>The body of the inner loop: the two \<open>if\<close> statements, in order.\<close>

definition check_pair :: "addr \<Rightarrow> addr \<Rightarrow> (addr \<Rightarrow> ui_adaptor) \<Rightarrow> (addr \<Rightarrow> ui_adaptor)" where
  "check_pair ui_upper ui_lower h =
     (let h1 = (if \<not> invalidated (h ui_upper) \<and> invalidated (h ui_lower) \<and>
                   overlap (dimensions (h ui_upper)) (dimensions (h ui_lower))
                then set_invalidated ui_upper True h else h)
      in if invalidated (h1 ui_upper) \<and> invalidated (h1 ui_lower) \<and>
            contains (dimensions (h1 ui_upper)) (dimensions (h1 ui_lower))
         then set_invalidated ui_lower False h1 else h1)"

text \<open>The inner loop for one \<open>it_upper\<close>, then the outer loop, both by index.\<close>

definition lower_loop :: "addr list \<Rightarrow> nat \<Rightarrow> nat \<Rightarrow> (addr \<Rightarrow> ui_adaptor) \<Rightarrow> (addr \<Rightarrow> ui_adaptor)" where
  "lower_loop stk first it_upper h =
     fold (\<lambda>it_lower. check_pair (stk ! it_upper) (stk ! it_lower)) [first..<it_upper] h"

definition consistency_heap :: "addr list \<Rightarrow> (addr \<Rightarrow> ui_adaptor) \<Rightarrow> (addr \<Rightarrow> ui_adaptor)" where
  "consistency_heap stk h =
     (let first = first_enabled h stk
      in fold (lower_loop stk first) [first..<length stk] h)"

definition invalidation_consistency_and_optimization :: "ui_state \<Rightarrow> ui_state" where
  "invalidation_consistency_and_optimization s =
     s\<lparr>heap := consistency_heap (ui_stack s) (heap s)\<rparr>"

subsection \<open>\<open>invalidate_ui\<close>\<close>

text \<open>
  The search loop stops at the first reference to \<open>this\<close>; \<open>found\<close> is the stack from
  there on, empty when the loop reached the end. The second loop returns as soon as a
  layer after that position contains the layer's rectangle.
\<close>

definition invalidate_ui :: "addr \<Rightarrow> ui_state \<Rightarrow> ui_state" where
  "invalidate_ui self s =
     (if invalidated (heap s self) then s
      else
        (let found = dropWhile (\<lambda>a. a \<noteq> self) (ui_stack s)
         in if found = [] then s
            else if list_ex (\<lambda>upper. contains (dimensions (heap s upper)) (dimensions (heap s self)))
                      (tl found)
            then s
            else invalidation_consistency_and_optimization
                   (s\<lparr>heap := set_invalidated self True (heap s)\<rparr>)))"

subsection \<open>\<open>invalidate\<close>\<close>

definition mark_overlapping :: "rectangle \<Rightarrow> addr list \<Rightarrow> (addr \<Rightarrow> ui_adaptor) \<Rightarrow> (addr \<Rightarrow> ui_adaptor)" where
  "mark_overlapping rect stk h =
     fold (\<lambda>ui_upper h'.
             if \<not> invalidated (h' ui_upper) \<and> overlap (dimensions (h' ui_upper)) rect
             then set_invalidated ui_upper True h' else h')
          stk h"

definition invalidate :: "rectangle \<Rightarrow> bool \<Rightarrow> ui_state \<Rightarrow> ui_state" where
  "invalidate rect reenable_uis_below s =
     (if pt_x (p_min rect) \<ge> pt_x (p_max rect) \<or> pt_y (p_min rect) \<ge> pt_y (p_max rect)
      then (if reenable_uis_below then invalidation_consistency_and_optimization s else s)
      else invalidation_consistency_and_optimization
             (s\<lparr>heap := mark_overlapping rect (ui_stack s) (heap s)\<rparr>))"

subsection \<open>\<open>position\<close>\<close>

text \<open>
  \<open>TILES\<close> is a build switch: the first argument is \<open>Some get_window_dimensions\<close> for a
  build with it and \<open>None\<close> for a build without. \<open>self\<close> is the address of the layer.
\<close>

definition position ::
  "(point \<Rightarrow> point \<Rightarrow> window_dimensions) option \<Rightarrow> addr \<Rightarrow> point \<Rightarrow> point \<Rightarrow> ui_state \<Rightarrow> ui_state" where
  "position tiles self topleft sz s =
     (let old_dimensions = dimensions (heap s self);
          new_dimensions =
            (case tiles of
               Some get_window_dimensions \<Rightarrow>
                 (let dim = get_window_dimensions topleft sz
                  in mk_rectangle (window_pos_pixel dim)
                       (point_add (window_pos_pixel dim) (window_size_pixel dim)))
             | None \<Rightarrow> mk_rectangle topleft (point_add topleft sz));
          s1 = s\<lparr>heap := set_dimensions self new_dimensions (heap s)\<rparr>;
          s2 = s1\<lparr>heap := set_invalidated self True (heap s1)\<rparr>
      in invalidate old_dimensions False s2)"

subsection \<open>\<open>redraw\<close> and \<open>redraw_invalidated\<close>\<close>

text \<open>
  The frame buffer that \<open>reinitialize_framebuffer\<close> rebuilds and the host loop that
  \<open>emscripten_sleep\<close> yields to are outside the state modelled here, so the two calls
  leave it as it is. \<open>ui_stack_copy\<close> is \<open>None\<close> until a copy of the stack is made;
  \<open>ui_stack_orig\<close> then reads the copy, and the live stack before.
\<close>

fun resize_loop :: "callbacks \<Rightarrow> addr list \<Rightarrow> ui_state \<Rightarrow> ui_state" where
  "resize_loop cbs [] s = s"
| "resize_loop cbs (ui # rest) s =
     resize_loop cbs rest
       (if deferred_resize (heap s ui)
        then (let s1 = (case screen_resized_cb (heap s ui) of
                          Some f \<Rightarrow> run_screen_resized_cb cbs f ui s
                        | None \<Rightarrow> s)
              in s1\<lparr>heap := set_deferred_resize ui False (heap s1)\<rparr>)
        else s)"

fun redraw_loop :: "callbacks \<Rightarrow> addr list \<Rightarrow> ui_state \<Rightarrow> ui_state" where
  "redraw_loop cbs [] s = s"
| "redraw_loop cbs (ui # rest) s =
     redraw_loop cbs rest
       (if invalidated (heap s ui)
        then (let s1 = (case redraw_cb (heap s ui) of
                          Some f \<Rightarrow> run_redraw_cb cbs f ui s
                        | None \<Rightarrow> s)
              in s1\<lparr>heap := set_invalidated ui False (heap s1)\<rparr>)
        else s)"

text \<open>
  The calls \<open>ui.redraw_cb( ui )\<close> that the redraw loop makes, in order: which callback,
  on which layer, and the state in which it is called.
\<close>

fun redraw_calls :: "callbacks \<Rightarrow> addr list \<Rightarrow> ui_state \<Rightarrow> (cb_id \<times> addr \<times> ui_state) list" where
  "redraw_calls cbs [] s = []"
| "redraw_calls cbs (ui # rest) s =
     (if invalidated (heap s ui)
      then (case redraw_cb (heap s ui) of
              Some f \<Rightarrow>
                (f, ui, s) #
                redraw_calls cbs rest
                  ((run_redraw_cb cbs f ui s)
                     \<lparr>heap := set_invalidated ui False (heap (run_redraw_cb cbs f ui s))\<rparr>)
            | None \<Rightarrow> redraw_calls cbs rest (s\<lparr>heap := set_invalidated ui False (heap s)\<rparr>))
      else redraw_calls cbs rest s)"

definition ui_stack_orig :: "addr list option \<Rightarrow> ui_state \<Rightarrow> addr list" where
  "ui_stack_orig ui_stack_copy s = (case ui_stack_copy of None \<Rightarrow> ui_stack s | Some c \<Rightarrow> c)"

text \<open>
  The resize phase, from the scan for \<open>needs_resize\<close> to the call of
  \<open>reinitialize_framebuffer\<close>: it returns \<open>ui_stack_copy\<close> and the state at the start of
  the redraw phase. \<open>fe\<close> is the index \<open>first_enabled\<close>.
\<close>

definition resize_phase :: "callbacks \<Rightarrow> nat \<Rightarrow> ui_state \<Rightarrow> addr list option \<times> ui_state" where
  "resize_phase cbs fe s =
     (let needs_resize =
            list_ex (\<lambda>ui. deferred_resize (heap s ui) \<and> screen_resized_cb (heap s ui) \<noteq> None)
              (drop fe (ui_stack s))
      in if needs_resize
         then (Some (ui_stack s), resize_loop cbs (drop fe (ui_stack s)) s)
         else (None, s))"

definition redraw_phase :: "callbacks \<Rightarrow> nat \<Rightarrow> addr list option \<Rightarrow> ui_state \<Rightarrow> ui_state" where
  "redraw_phase cbs fe ui_stack_copy s =
     (let needs_redraw =
            list_ex (\<lambda>ui. invalidated (heap s ui) \<and> redraw_cb (heap s ui) \<noteq> None)
              (drop fe (ui_stack_orig ui_stack_copy s))
      in if needs_redraw
         then (let ui_stack_copy' =
                     (case ui_stack_copy of
                        None \<Rightarrow> Some (ui_stack_orig ui_stack_copy s)
                      | Some c \<Rightarrow> Some c)
               in redraw_loop cbs (drop fe (ui_stack_orig ui_stack_copy' s)) s)
         else s)"

definition redraw_invalidated :: "callbacks \<Rightarrow> ui_state \<Rightarrow> ui_state" where
  "redraw_invalidated cbs s =
     (if test_mode s \<or> ui_stack s = [] then s
      else
        (let fe = first_enabled (heap s) (ui_stack s);
             (ui_stack_copy, s1) = resize_phase cbs fe s
         in redraw_phase cbs fe ui_stack_copy s1))"

definition redraw :: "callbacks \<Rightarrow> ui_state \<Rightarrow> ui_state" where
  "redraw cbs s =
     redraw_invalidated cbs
       (if ui_stack s \<noteq> []
        then s\<lparr>heap := set_invalidated (last (ui_stack s)) True (heap s)\<rparr>
        else s)"

subsection \<open>Example stacks\<close>

text \<open>
  Small concrete states on which the theorems below are run. In \<open>mk_state ls\<close> the
  layer \<open>ls ! a\<close> lives at address \<open>a\<close> and the stack is \<open>[0, 1, \<dots>]\<close>, bottom first;
  test mode is off.
\<close>

definition box :: "int \<Rightarrow> int \<Rightarrow> int \<Rightarrow> int \<Rightarrow> rectangle" where
  "box x0 y0 x1 y1 = mk_rectangle (mk_point x0 y0) (mk_point x1 y1)"

definition layer :: "rectangle \<Rightarrow> bool \<Rightarrow> bool \<Rightarrow> cb_id option \<Rightarrow> ui_adaptor" where
  "layer r disabling inval cb =
     \<lparr>dimensions = r, disabling_uis_below = disabling, invalidated = inval,
      deferred_resize = False, redraw_cb = cb, screen_resized_cb = None\<rparr>"

definition mk_state :: "ui_adaptor list \<Rightarrow> ui_state" where
  "mk_state ls =
     \<lparr>heap = (\<lambda>a. if a < length ls then ls ! a else layer (box 0 0 0 0) False False None),
      ui_stack = [0..<length ls], test_mode = False\<rparr>"

text \<open>Callbacks that leave the UI state alone.\<close>

definition idle_callbacks :: callbacks where
  "idle_callbacks = \<lparr>run_redraw_cb = (\<lambda>f ui s. s), run_screen_resized_cb = (\<lambda>f ui s. s)\<rparr>"

text \<open>An invalidated layer below a clean one; the two overlap, neither contains the other.\<close>

definition two_overlapping :: ui_state where
  "two_overlapping =
     mk_state [layer (box 0 0 4 4) False True None, layer (box 2 2 6 6) False False None]"

text \<open>
  Three layers: the bottom one is invalidated and lies inside the middle one; the top one
  overlaps both and contains neither.
\<close>

definition three_cascading :: ui_state where
  "three_cascading =
     mk_state [layer (box 2 2 6 6) False True None, layer (box 0 0 8 8) False False None,
               layer (box 4 4 12 12) False False None]"

text \<open>Two and three invalidated layers, each inside the next one up.\<close>

definition two_nested :: ui_state where
  "two_nested =
     mk_state [layer (box 2 2 4 4) False True None, layer (box 0 0 6 6) False True None]"

definition three_nested :: ui_state where
  "three_nested =
     mk_state [layer (box 2 2 4 4) False True None, layer (box 1 1 5 5) False True None,
               layer (box 0 0 6 6) False True None]"

text \<open>A clean layer below a layer that disables the layers below it.\<close>

definition one_disabled :: ui_state where
  "one_disabled =
     mk_state [layer (box 0 0 4 4) False False None, layer (box 10 10 12 12) True False None]"

text \<open>The same with the lower layer invalidated.\<close>

definition one_disabled_dirty :: ui_state where
  "one_disabled_dirty =
     mk_state [layer (box 0 0 4 4) False True None, layer (box 10 10 12 12) True False None]"



text \<open>A clean small layer below a clean large one.\<close>

definition small_below_large :: ui_state where
  "small_below_large =
     mk_state [layer (box 0 0 5 5) False False None, layer (box 0 0 10 10) False False None]"

text \<open>Two clean layers in test mode.\<close>

definition headless :: ui_state where
  "headless =
     (mk_state [layer (box 0 0 80 24) False False None, layer (box 10 5 40 15) False False None])
       \<lparr>test_mode := True\<rparr>"



text \<open>A \<open>get_window_dimensions\<close> for cells of two by two pixels.\<close>

definition two_pixel_cells :: "point \<Rightarrow> point \<Rightarrow> window_dimensions" where
  "two_pixel_cells pos sz =
     \<lparr>window_pos_pixel = mk_point (2 * pt_x pos) (2 * pt_y pos),
      window_size_pixel = mk_point (2 * pt_x sz) (2 * pt_y sz)\<rparr>"

lemmas state_defs = mk_state_def layer_def box_def mk_rectangle_def mk_point_def

lemmas pass_defs =
  invalidation_consistency_and_optimization_def consistency_heap_def first_enabled_def
  lower_loop_def check_pair_def set_invalidated_def overlap_def contains_def

section \<open>Lemmas about the loops\<close>

subsection \<open>One step of the consistency pass\<close>

lemma check_pair_other:
  "a \<noteq> u \<Longrightarrow> a \<noteq> l \<Longrightarrow> check_pair u l h a = h a"
  by (simp add: check_pair_def set_invalidated_def Let_def)

lemma check_pair_flag_only:
  "check_pair u l h a = (h a)\<lparr>invalidated := invalidated (check_pair u l h a)\<rparr>"
  by (simp add: check_pair_def set_invalidated_def Let_def)

lemma check_pair_dimensions [simp]:
  "dimensions (check_pair u l h a) = dimensions (h a)"
  by (simp add: check_pair_def set_invalidated_def Let_def)

lemma check_pair_disabling [simp]:
  "disabling_uis_below (check_pair u l h a) = disabling_uis_below (h a)"
  by (simp add: check_pair_def set_invalidated_def Let_def)

lemma check_pair_down:
  "a \<noteq> u \<Longrightarrow> \<not> invalidated (h a) \<Longrightarrow> \<not> invalidated (check_pair u l h a)"
  by (simp add: check_pair_def set_invalidated_def Let_def)

lemma check_pair_up:
  "invalidated (h a) \<Longrightarrow> (a = l \<Longrightarrow> \<not> contains (dimensions (h u)) (dimensions (h a)))
     \<Longrightarrow> invalidated (check_pair u l h a)"
  by (auto simp add: check_pair_def set_invalidated_def Let_def)

lemma check_pair_clear:
  "invalidated (h u) \<Longrightarrow> contains (dimensions (h u)) (dimensions (h l))
     \<Longrightarrow> \<not> invalidated (check_pair u l h l)"
  by (auto simp add: check_pair_def set_invalidated_def Let_def)

lemma check_pair_set:
  "u \<noteq> l \<Longrightarrow> invalidated (h l) \<Longrightarrow> overlap (dimensions (h u)) (dimensions (h l)) \<Longrightarrow>
   \<not> contains (dimensions (h u)) (dimensions (h l)) \<Longrightarrow>
   invalidated (check_pair u l h u) \<and> invalidated (check_pair u l h l)"
  by (auto simp add: check_pair_def set_invalidated_def Let_def)

lemma fold_upt_split:
  "lo \<le> k \<Longrightarrow> k < hi \<Longrightarrow> fold F [lo..<hi] h = fold F [Suc k..<hi] (F k (fold F [lo..<k] h))"
proof -
  assume a: "lo \<le> k" "k < hi"
  from a have "[lo..<hi] = [lo..<k + (hi - k)]" by simp
  also from a(1) have "\<dots> = [lo..<k] @ [k..<k + (hi - k)]" by (rule upt_add_eq_append)
  also from a have "[k..<k + (hi - k)] = k # [Suc k..<hi]" by (simp add: upt_conv_Cons)
  finally show ?thesis by simp
qed

lemma fold_upt_invariant:
  assumes "P h"
    and "\<And>i s. lo \<le> i \<Longrightarrow> i < hi \<Longrightarrow> P s \<Longrightarrow> P (F i s)"
  shows "P (fold F [lo..<hi] h)"
proof -
  have "P (fold F xs h)" if "\<forall>i \<in> set xs. lo \<le> i \<and> i < hi" for xs
    using that assms(1)
  proof (induction xs arbitrary: h)
    case Nil
    then show ?case by simp
  next
    case (Cons i xs)
    then have "P (F i h)" using assms(2) by simp
    with Cons show ?case by simp
  qed
  then show ?thesis by simp
qed

lemma upper_loop_invariant:
  assumes "P h"
    and "\<And>iu il h'. lo \<le> iu \<Longrightarrow> iu < hi \<Longrightarrow> first \<le> il \<Longrightarrow> il < iu \<Longrightarrow> P h'
           \<Longrightarrow> P (check_pair (stk ! iu) (stk ! il) h')"
  shows "P (fold (lower_loop stk first) [lo..<hi] h)"
proof (rule fold_upt_invariant [where P = P])
  show "P h" by (rule assms(1))
next
  fix iu s
  assume *: "lo \<le> iu" "iu < hi" "P s"
  show "P (lower_loop stk first iu s)"
    unfolding lower_loop_def
  proof (rule fold_upt_invariant [where P = P])
    show "P s" by (rule *(3))
  next
    fix il s'
    assume "first \<le> il" "il < iu" "P s'"
    with * show "P (check_pair (stk ! iu) (stk ! il) s')"
      using assms(2) by simp
  qed
qed

lemma upper_loop_flag_only:
  "fold (lower_loop stk first) [lo..<hi] h a
     = (h a)\<lparr>invalidated := invalidated (fold (lower_loop stk first) [lo..<hi] h a)\<rparr>"
proof -
  have "\<exists>b. fold (lower_loop stk first) [lo..<hi] h a = (h a)\<lparr>invalidated := b\<rparr>"
  proof (rule upper_loop_invariant)
    show "\<exists>b. h a = (h a)\<lparr>invalidated := b\<rparr>"
      by (rule exI [of _ "invalidated (h a)"]) simp
  next
    fix iu il h'
    assume "\<exists>b. h' a = (h a)\<lparr>invalidated := b\<rparr>"
    then obtain b where "h' a = (h a)\<lparr>invalidated := b\<rparr>" ..
    then have "check_pair (stk ! iu) (stk ! il) h' a
                 = (h a)\<lparr>invalidated := invalidated (check_pair (stk ! iu) (stk ! il) h' a)\<rparr>"
      using check_pair_flag_only [of "stk ! iu" "stk ! il" h' a] by simp
    then show "\<exists>b. check_pair (stk ! iu) (stk ! il) h' a = (h a)\<lparr>invalidated := b\<rparr>" ..
  qed
  then obtain b where "fold (lower_loop stk first) [lo..<hi] h a = (h a)\<lparr>invalidated := b\<rparr>" ..
  then show ?thesis by simp
qed

lemma upper_loop_flag_kept:
  assumes "invalidated (h a)"
    and "\<And>il iu. first \<le> il \<Longrightarrow> il < iu \<Longrightarrow> lo \<le> iu \<Longrightarrow> iu < hi \<Longrightarrow> stk ! il = a
           \<Longrightarrow> \<not> contains (dimensions (h (stk ! iu))) (dimensions (h a))"
  shows "invalidated (fold (lower_loop stk first) [lo..<hi] h a)"
proof -
  let ?P = "\<lambda>h' :: addr \<Rightarrow> ui_adaptor. (\<forall>b. dimensions (h' b) = dimensions (h b)) \<and> invalidated (h' a)"
  have "?P (fold (lower_loop stk first) [lo..<hi] h)"
  proof (rule upper_loop_invariant)
    show "?P h" using assms(1) by simp
  next
    fix iu il h'
    assume *: "lo \<le> iu" "iu < hi" "first \<le> il" "il < iu" "?P h'"
    have "invalidated (check_pair (stk ! iu) (stk ! il) h' a)"
    proof (rule check_pair_up)
      show "invalidated (h' a)" using * by simp
      show "\<not> contains (dimensions (h' (stk ! iu))) (dimensions (h' a))" if "a = stk ! il"
        using assms(2) [of il iu] * that by simp
    qed
    then show "?P (check_pair (stk ! iu) (stk ! il) h')" using * by simp
  qed
  then show ?thesis by simp
qed

lemma upper_loop_untouched:
  assumes "\<And>i. first \<le> i \<Longrightarrow> i < hi \<Longrightarrow> stk ! i \<noteq> a"
  shows "fold (lower_loop stk first) [lo..<hi] h a = h a"
proof (rule upper_loop_invariant [where P = "\<lambda>h'. h' a = h a"])
  show "h a = h a" ..
next
  fix iu il h'
  assume *: "lo \<le> iu" "iu < hi" "first \<le> il" "il < iu" "h' a = h a"
  have "stk ! iu \<noteq> a" "stk ! il \<noteq> a" using assms [of iu] assms [of il] * by auto
  then show "check_pair (stk ! iu) (stk ! il) h' a = h a"
    using * by (simp add: check_pair_other)
qed

subsection \<open>The pass as a whole, and the marking loop\<close>

lemma first_enabled_cong:
  "(\<And>a. disabling_uis_below (h' a) = disabling_uis_below (h a))
     \<Longrightarrow> first_enabled h' stk = first_enabled h stk"
  by (simp add: first_enabled_def)

lemma first_enabled_less:
  "stk \<noteq> [] \<Longrightarrow> first_enabled h stk < length stk"
proof -
  assume "stk \<noteq> []"
  have "length (dropWhile (\<lambda>a. \<not> disabling_uis_below (h a)) (rev stk)) \<le> length (rev stk)"
    by (rule length_dropWhile_le)
  moreover from \<open>stk \<noteq> []\<close> have "0 < length stk" by simp
  ultimately have "length (dropWhile (\<lambda>a. \<not> disabling_uis_below (h a)) (rev stk)) - 1 < length stk"
    unfolding length_rev by arith
  with \<open>0 < length stk\<close> show ?thesis
    unfolding first_enabled_def Let_def by (simp del: dropWhile_eq_Nil_conv)
qed

lemma consistency_heap_flag_only:
  "consistency_heap stk h a = (h a)\<lparr>invalidated := invalidated (consistency_heap stk h a)\<rparr>"
  unfolding consistency_heap_def Let_def by (rule upper_loop_flag_only)

lemma consistency_heap_untouched:
  assumes "\<And>i. first_enabled h stk \<le> i \<Longrightarrow> i < length stk \<Longrightarrow> stk ! i \<noteq> a"
  shows "consistency_heap stk h a = h a"
  unfolding consistency_heap_def Let_def using assms by (rule upper_loop_untouched)

lemma consistency_heap_flag_kept:
  assumes "invalidated (h a)"
    and "\<And>il iu. first_enabled h stk \<le> il \<Longrightarrow> il < iu \<Longrightarrow> iu < length stk \<Longrightarrow> stk ! il = a
           \<Longrightarrow> \<not> contains (dimensions (h (stk ! iu))) (dimensions (h a))"
  shows "invalidated (consistency_heap stk h a)"
  unfolding consistency_heap_def Let_def
  by (rule upper_loop_flag_kept) (use assms in auto)

lemma mark_overlapping_eq:
  "mark_overlapping rect stk h a =
     (if a \<in> set stk \<and> \<not> invalidated (h a) \<and> overlap (dimensions (h a)) rect
      then (h a)\<lparr>invalidated := True\<rparr> else h a)"
  unfolding mark_overlapping_def
  by (induction stk arbitrary: h) (auto simp add: set_invalidated_def)

lemma mark_overlapping_flag:
  "invalidated (mark_overlapping rect stk h a) \<longleftrightarrow>
     invalidated (h a) \<or> (a \<in> set stk \<and> overlap (dimensions (h a)) rect)"
  by (auto simp add: mark_overlapping_eq)

lemma mark_overlapping_dimensions [simp]:
  "dimensions (mark_overlapping rect stk h a) = dimensions (h a)"
  by (simp add: mark_overlapping_eq)

lemma mark_overlapping_disabling [simp]:
  "disabling_uis_below (mark_overlapping rect stk h a) = disabling_uis_below (h a)"
  by (simp add: mark_overlapping_eq)

lemma below_first_enabled_not_in_range:
  assumes "distinct stk" and "i < first_enabled h stk"
  shows "i < length stk" and "\<And>j. first_enabled h stk \<le> j \<Longrightarrow> j < length stk \<Longrightarrow> stk ! j \<noteq> stk ! i"
proof -
  from assms(2) have "stk \<noteq> []" by (auto simp add: first_enabled_def)
  then have "first_enabled h stk < length stk" by (rule first_enabled_less)
  with assms(2) show *: "i < length stk" by simp
  fix j assume "first_enabled h stk \<le> j" "j < length stk"
  with assms * show "stk ! j \<noteq> stk ! i" by (simp add: nth_eq_iff_index_eq)
qed

subsection \<open>The pass around one pair of layers\<close>

text \<open>
  The pass visits the pairs in a fixed order. For a pair \<open>(l, u)\<close> of the enabled range,
  a property \<open>P\<close> kept by every step before the pair, turned into \<open>Q\<close> by the step at
  the pair, and \<open>Q\<close> kept by every step after it, gives \<open>Q\<close> at the end.
\<close>

lemma pass_around_pair:
  assumes range: "first \<le> l" "l < u" "u < n"
    and start: "P h"
    and before: "\<And>iu il h'. first \<le> il \<Longrightarrow> il < iu \<Longrightarrow> iu < n \<Longrightarrow> iu < u \<or> (iu = u \<and> il < l)
                   \<Longrightarrow> P h' \<Longrightarrow> P (check_pair (stk ! iu) (stk ! il) h')"
    and at: "\<And>h'. P h' \<Longrightarrow> Q (check_pair (stk ! u) (stk ! l) h')"
    and after: "\<And>iu il h'. first \<le> il \<Longrightarrow> il < iu \<Longrightarrow> iu < n \<Longrightarrow> u < iu \<or> (iu = u \<and> l < il)
                   \<Longrightarrow> Q h' \<Longrightarrow> Q (check_pair (stk ! iu) (stk ! il) h')"
  shows "Q (fold (lower_loop stk first) [first..<n] h)"
proof -
  let ?F = "lower_loop stk first"
  let ?G = "\<lambda>il. check_pair (stk ! u) (stk ! il)"
  define hA where "hA = fold ?F [first..<u] h"
  define hB1 where "hB1 = fold ?G [first..<l] hA"
  define hB2 where "hB2 = fold ?G [Suc l..<u] (?G l hB1)"
  from range have "fold ?F [first..<n] h = fold ?F [Suc u..<n] (?F u hA)"
    unfolding hA_def by (intro fold_upt_split) simp_all
  moreover from range have "?F u hA = hB2"
    unfolding hB2_def hB1_def lower_loop_def by (intro fold_upt_split) simp_all
  ultimately have split: "fold ?F [first..<n] h = fold ?F [Suc u..<n] hB2"
    by simp
  have "P hA"
    unfolding hA_def
  proof (rule upper_loop_invariant [where P = P])
    show "P h" by (rule start)
  next
    fix iu il h'
    assume "first \<le> iu" "iu < u" "first \<le> il" "il < iu" "P h'"
    with range show "P (check_pair (stk ! iu) (stk ! il) h')"
      by (intro before) simp_all
  qed
  then have "P hB1"
    unfolding hB1_def
  proof (rule fold_upt_invariant [where P = P])
    fix il h'
    assume "first \<le> il" "il < l" "P h'"
    with range show "P (check_pair (stk ! u) (stk ! il) h')"
      by (intro before) simp_all
  qed
  then have "Q (?G l hB1)" by (rule at)
  then have "Q hB2"
    unfolding hB2_def
  proof (rule fold_upt_invariant [where P = Q])
    fix il h'
    assume "Suc l \<le> il" "il < u" "Q h'"
    with range show "Q (check_pair (stk ! u) (stk ! il) h')"
      by (intro after) simp_all
  qed
  then have "Q (fold ?F [Suc u..<n] hB2)"
  proof (rule upper_loop_invariant [where P = Q])
    fix iu il h'
    assume "Suc u \<le> iu" "iu < n" "first \<le> il" "il < iu" "Q h'"
    then show "Q (check_pair (stk ! iu) (stk ! il) h')"
      by (intro after) simp_all
  qed
  with split show ?thesis by simp
qed

lemma lower_cleared:
  assumes "distinct stk"
    and range: "first \<le> l" "l < u" "u < length stk"
    and "invalidated (h (stk ! u))"
    and "contains (dimensions (h (stk ! u))) (dimensions (h (stk ! l)))"
  shows "\<not> invalidated (fold (lower_loop stk first) [first..<length stk] h (stk ! l))"
proof -
  let ?P = "\<lambda>h' :: addr \<Rightarrow> ui_adaptor.
              (\<forall>b. dimensions (h' b) = dimensions (h b)) \<and> invalidated (h' (stk ! u))"
  let ?Q = "\<lambda>h' :: addr \<Rightarrow> ui_adaptor. \<not> invalidated (h' (stk ! l))"
  have "?Q (fold (lower_loop stk first) [first..<length stk] h)"
  proof (rule pass_around_pair [where P = ?P and Q = ?Q and l = l and u = u])
    show "first \<le> l" "l < u" "u < length stk" by (rule range)+
    show "?P h" using assms(5) by simp
  next
    fix iu il h'
    assume *: "il < iu" "iu < length stk" "iu < u \<or> (iu = u \<and> il < l)" "?P h'"
    with assms(1) range have "stk ! u \<noteq> stk ! il"
      by (auto simp add: nth_eq_iff_index_eq)
    with * show "?P (check_pair (stk ! iu) (stk ! il) h')"
      by (simp add: check_pair_up)
  next
    fix h'
    assume "?P h'"
    with assms(6) show "?Q (check_pair (stk ! u) (stk ! l) h')"
      by (intro check_pair_clear) simp_all
  next
    fix iu il h'
    assume *: "il < iu" "iu < length stk" "u < iu \<or> (iu = u \<and> l < il)" "?Q h'"
    with assms(1) range have "stk ! l \<noteq> stk ! iu"
      by (auto simp add: nth_eq_iff_index_eq)
    with * show "?Q (check_pair (stk ! iu) (stk ! il) h')"
      by (intro check_pair_down) simp_all
  qed
  then show ?thesis .
qed

lemma upper_set:
  assumes "distinct stk"
    and range: "first \<le> l" "l < u" "u < length stk"
    and "invalidated (h (stk ! l))"
    and "overlap (dimensions (h (stk ! u))) (dimensions (h (stk ! l)))"
    and free_l: "\<And>j. l < j \<Longrightarrow> j < length stk
                   \<Longrightarrow> \<not> contains (dimensions (h (stk ! j))) (dimensions (h (stk ! l)))"
    and free_u: "\<And>j. u < j \<Longrightarrow> j < length stk
                   \<Longrightarrow> \<not> contains (dimensions (h (stk ! j))) (dimensions (h (stk ! u)))"
  shows "invalidated (fold (lower_loop stk first) [first..<length stk] h (stk ! u)) \<and>
         invalidated (fold (lower_loop stk first) [first..<length stk] h (stk ! l))"
proof -
  let ?P = "\<lambda>h' :: addr \<Rightarrow> ui_adaptor.
              (\<forall>b. dimensions (h' b) = dimensions (h b)) \<and> invalidated (h' (stk ! l))"
  let ?Q = "\<lambda>h' :: addr \<Rightarrow> ui_adaptor.
              (\<forall>b. dimensions (h' b) = dimensions (h b)) \<and> invalidated (h' (stk ! u)) \<and>
              invalidated (h' (stk ! l))"
  have keep_l: "invalidated (check_pair (stk ! iu) (stk ! il) h' (stk ! l))"
    if "il < iu" "iu < length stk" "?P h'" for iu il h'
  proof (rule check_pair_up)
    show "invalidated (h' (stk ! l))" using that by simp
    assume "stk ! l = stk ! il"
    with assms(1) range that have "il = l" by (simp add: nth_eq_iff_index_eq)
    with that free_l [of iu]
    show "\<not> contains (dimensions (h' (stk ! iu))) (dimensions (h' (stk ! l)))" by simp
  qed
  have keep_u: "invalidated (check_pair (stk ! iu) (stk ! il) h' (stk ! u))"
    if "il < iu" "iu < length stk" "?Q h'" for iu il h'
  proof (rule check_pair_up)
    show "invalidated (h' (stk ! u))" using that by simp
    assume "stk ! u = stk ! il"
    with assms(1) range that have "il = u" by (simp add: nth_eq_iff_index_eq)
    with that free_u [of iu]
    show "\<not> contains (dimensions (h' (stk ! iu))) (dimensions (h' (stk ! u)))" by simp
  qed
  have "?Q (fold (lower_loop stk first) [first..<length stk] h)"
  proof (rule pass_around_pair [where P = ?P and Q = ?Q and l = l and u = u])
    show "first \<le> l" "l < u" "u < length stk" by (rule range)+
    show "?P h" using assms(5) by simp
  next
    fix iu il h'
    assume "il < iu" "iu < length stk" "?P h'"
    then show "?P (check_pair (stk ! iu) (stk ! il) h')"
      using keep_l [of il iu h'] by simp
  next
    fix h'
    assume *: "?P h'"
    from assms(1) range have "stk ! u \<noteq> stk ! l" by (simp add: nth_eq_iff_index_eq)
    moreover from * have "invalidated (h' (stk ! l))" by simp
    moreover from * assms(6) have "overlap (dimensions (h' (stk ! u))) (dimensions (h' (stk ! l)))"
      by simp
    moreover from * free_l [of u] range
    have "\<not> contains (dimensions (h' (stk ! u))) (dimensions (h' (stk ! l)))" by simp
    ultimately have "invalidated (check_pair (stk ! u) (stk ! l) h' (stk ! u)) \<and>
                     invalidated (check_pair (stk ! u) (stk ! l) h' (stk ! l))"
      by (rule check_pair_set)
    with * show "?Q (check_pair (stk ! u) (stk ! l) h')" by simp
  next
    fix iu il h'
    assume "il < iu" "iu < length stk" "?Q h'"
    then show "?Q (check_pair (stk ! iu) (stk ! il) h')"
      using keep_l [of il iu h'] keep_u [of il iu h'] by simp
  qed
  then show ?thesis by simp
qed

subsection \<open>The search in \<open>invalidate_ui\<close>\<close>

lemma dropWhile_first_occurrence:
  assumes "self \<in> set stk"
  obtains pre rest where "stk = pre @ self # rest" and "self \<notin> set pre"
    and "dropWhile (\<lambda>a. a \<noteq> self) stk = self # rest"
proof -
  from assms obtain pre rest where *: "stk = pre @ self # rest" "self \<notin> set pre"
    by (auto dest: split_list_first)
  then have "dropWhile (\<lambda>a. a \<noteq> self) stk = self # rest"
    by (auto simp add: dropWhile_append3)
  with * show thesis by (rule that)
qed

lemma above_first_occurrence:
  assumes "stk = pre @ self # rest" and "self \<notin> set pre"
  shows "list_ex C rest \<longleftrightarrow> (\<exists>j<length stk. \<exists>i<j. stk ! i = self \<and> C (stk ! j))"
proof
  assume "list_ex C rest"
  then obtain k where k: "k < length rest" "C (rest ! k)"
    by (auto simp add: list_ex_iff in_set_conv_nth)
  let ?i = "length pre" and ?j = "Suc (length pre + k)"
  have "?j < length stk" "?i < ?j" "stk ! ?i = self" "stk ! ?j = rest ! k"
    using k(1) by (simp_all add: assms(1) nth_append)
  with k(2) show "\<exists>j<length stk. \<exists>i<j. stk ! i = self \<and> C (stk ! j)"
    by metis
next
  assume "\<exists>j<length stk. \<exists>i<j. stk ! i = self \<and> C (stk ! j)"
  then obtain i j where ij: "j < length stk" "i < j" "stk ! i = self" "C (stk ! j)"
    by blast
  have "length pre \<le> i"
  proof (rule ccontr)
    assume "\<not> length pre \<le> i"
    then have "stk ! i \<in> set pre" by (simp add: assms(1) nth_append)
    with ij(3) assms(2) show False by simp
  qed
  with ij(1,2) have "stk ! j = rest ! (j - Suc (length pre))" "j - Suc (length pre) < length rest"
    by (auto simp add: assms(1) nth_append nth_Cons')
  with ij(4) show "list_ex C rest"
    by (auto simp add: list_ex_iff)
qed

lemma invalidate_ui_cases:
  fixes s self
  defines "hidden \<equiv> (\<exists>j<length (ui_stack s). \<exists>i<j. ui_stack s ! i = self \<and>
             contains (dimensions (heap s (ui_stack s ! j))) (dimensions (heap s self)))"
  shows "invalidated (heap s self) \<or> self \<notin> set (ui_stack s) \<or> hidden
           \<Longrightarrow> invalidate_ui self s = s"
    and "\<not> (invalidated (heap s self) \<or> self \<notin> set (ui_stack s) \<or> hidden)
           \<Longrightarrow> invalidate_ui self s =
                 invalidation_consistency_and_optimization
                   (s\<lparr>heap := (heap s)(self := (heap s self)\<lparr>invalidated := True\<rparr>)\<rparr>)"
    and "\<not> (invalidated (heap s self) \<or> self \<notin> set (ui_stack s) \<or> hidden)
           \<Longrightarrow> invalidated (heap (invalidate_ui self s) self)"
proof -
  let ?C = "\<lambda>upper. contains (dimensions (heap s upper)) (dimensions (heap s self))"
  have found: "dropWhile (\<lambda>a. a \<noteq> self) (ui_stack s) = [] \<longleftrightarrow> self \<notin> set (ui_stack s)"
    by auto
  have occl: "list_ex ?C (tl (dropWhile (\<lambda>a. a \<noteq> self) (ui_stack s))) \<longleftrightarrow> hidden"
    if "self \<in> set (ui_stack s)"
  proof -
    from that obtain pre rest where *: "ui_stack s = pre @ self # rest" "self \<notin> set pre"
      "dropWhile (\<lambda>a. a \<noteq> self) (ui_stack s) = self # rest"
      by (rule dropWhile_first_occurrence)
    from above_first_occurrence [OF *(1,2), of ?C] *(3) show ?thesis
      by (simp add: hidden_def)
  qed
  show noop: "invalidate_ui self s = s"
    if "invalidated (heap s self) \<or> self \<notin> set (ui_stack s) \<or> hidden"
    using that found occl
    by (cases "self \<in> set (ui_stack s)") (auto simp add: invalidate_ui_def Let_def simp del: dropWhile_eq_Nil_conv)
  show run: "invalidate_ui self s =
                 invalidation_consistency_and_optimization
                   (s\<lparr>heap := (heap s)(self := (heap s self)\<lparr>invalidated := True\<rparr>)\<rparr>)"
    if "\<not> (invalidated (heap s self) \<or> self \<notin> set (ui_stack s) \<or> hidden)"
    using that found occl
    by (auto simp add: invalidate_ui_def Let_def set_invalidated_def simp del: dropWhile_eq_Nil_conv)
  show "invalidated (heap (invalidate_ui self s) self)"
    if n: "\<not> (invalidated (heap s self) \<or> self \<notin> set (ui_stack s) \<or> hidden)"
  proof -
    let ?h = "(heap s)(self := (heap s self)\<lparr>invalidated := True\<rparr>)"
    have dims: "dimensions (?h x) = dimensions (heap s x)" for x by simp
    have "invalidated (consistency_heap (ui_stack s) ?h self)"
    proof (rule consistency_heap_flag_kept)
      show "invalidated (?h self)" by simp
    next
      fix il iu
      assume "il < iu" "iu < length (ui_stack s)" "ui_stack s ! il = self"
      with n have "\<not> contains (dimensions (heap s (ui_stack s ! iu))) (dimensions (heap s self))"
        unfolding hidden_def by blast
      then show "\<not> contains (dimensions (?h (ui_stack s ! iu))) (dimensions (?h self))"
        unfolding dims .
    qed
    then show ?thesis
      by (simp add: run [OF n] invalidation_consistency_and_optimization_def)
  qed
qed

subsection \<open>What \<open>invalidate\<close> keeps\<close>

lemma consistency_heap_dimensions [simp]:
  "dimensions (consistency_heap stk h a) = dimensions (h a)"
proof -
  have "dimensions (consistency_heap stk h a)
          = dimensions ((h a)\<lparr>invalidated := invalidated (consistency_heap stk h a)\<rparr>)"
    using consistency_heap_flag_only [of stk h a] by simp
  then show ?thesis by simp
qed

lemma invalidate_dimensions [simp]:
  "dimensions (heap (invalidate rect reenable s) a) = dimensions (heap s a)"
  by (simp add: invalidate_def invalidation_consistency_and_optimization_def)

lemma invalidate_keeps_stack [simp]:
  "ui_stack (invalidate rect reenable s) = ui_stack s"
  by (simp add: invalidate_def invalidation_consistency_and_optimization_def)

lemma invalidate_flag_kept:
  assumes "invalidated (heap s a)"
    and "\<And>il iu. il < iu \<Longrightarrow> iu < length (ui_stack s) \<Longrightarrow> ui_stack s ! il = a
           \<Longrightarrow> \<not> contains (dimensions (heap s (ui_stack s ! iu))) (dimensions (heap s a))"
  shows "invalidated (heap (invalidate rect reenable s) a)"
proof -
  have "invalidated (consistency_heap (ui_stack s) h a)"
    if "invalidated (h a)" and "\<And>b. dimensions (h b) = dimensions (heap s b)" for h
  proof (rule consistency_heap_flag_kept)
    show "invalidated (h a)" by (rule that(1))
  next
    fix il iu
    assume "il < iu" "iu < length (ui_stack s)" "ui_stack s ! il = a"
    then show "\<not> contains (dimensions (h (ui_stack s ! iu))) (dimensions (h a))"
      using assms(2) [of il iu] that(2) by simp
  qed
  from this [of "heap s"] this [of "mark_overlapping rect (ui_stack s) (heap s)"] assms(1)
  show ?thesis
    by (simp add: invalidate_def invalidation_consistency_and_optimization_def
          mark_overlapping_flag)
qed

subsection \<open>The redraw loop\<close>


lemma redraw_calls_complete:
  assumes "\<forall>(f, ui, t') \<in> set (redraw_calls cbs xs t).
             run_redraw_cb cbs' f ui t' = run_redraw_cb cbs f ui t'"
  shows "redraw_loop cbs' xs t = redraw_loop cbs xs t \<and>
         redraw_calls cbs' xs t = redraw_calls cbs xs t"
  using assms
proof (induction xs arbitrary: t)
  case Nil
  show ?case by simp
next
  case (Cons ui rest)
  show ?case
  proof (cases "invalidated (heap t ui)")
    case False
    with Cons.prems Cons.IH [of t] show ?thesis by simp
  next
    case True
    show ?thesis
    proof (cases "redraw_cb (heap t ui)")
      case None
      with True Cons.prems Cons.IH [of "t\<lparr>heap := set_invalidated ui False (heap t)\<rparr>"]
      show ?thesis by (simp add: Let_def)
    next
      case (Some f)
      let ?r = "run_redraw_cb cbs f ui t"
      from True Some Cons.prems have same: "run_redraw_cb cbs' f ui t = ?r"
        and rest: "\<forall>(f, ui, t') \<in> set (redraw_calls cbs rest
                       (?r\<lparr>heap := set_invalidated ui False (heap ?r)\<rparr>)).
             run_redraw_cb cbs' f ui t' = run_redraw_cb cbs f ui t'"
        by simp_all
      from Cons.IH [OF rest] True Some same show ?thesis by (simp add: Let_def)
    qed
  qed
qed


section \<open>The specified properties\<close>

subsection \<open>The two rules of the consistency pass\<close>

text \<open>
  C1, as amended. Let \<open>l < u\<close> be two indices of the enabled range of a stack without
  repeated addresses, the layer at \<open>u\<close> clean, the layer at \<open>l\<close> invalidated, their
  rectangles overlapping and neither containing the other. If moreover no layer above
  \<open>l\<close> has a rectangle containing that of \<open>l\<close>, and no layer above \<open>u\<close> one containing
  that of \<open>u\<close>, then after the pass both layers are invalidated.
\<close>

theorem cascade_rule:
  assumes "distinct (ui_stack s)"
    and "first_enabled (heap s) (ui_stack s) \<le> l" and "l < u" and "u < length (ui_stack s)"
    and "\<not> invalidated (heap s (ui_stack s ! u))"
    and "invalidated (heap s (ui_stack s ! l))"
    and "overlap (dimensions (heap s (ui_stack s ! u))) (dimensions (heap s (ui_stack s ! l)))"
    and "\<not> contains (dimensions (heap s (ui_stack s ! u))) (dimensions (heap s (ui_stack s ! l)))"
    and "\<not> contains (dimensions (heap s (ui_stack s ! l))) (dimensions (heap s (ui_stack s ! u)))"
    and "\<forall>j. l < j \<and> j < length (ui_stack s) \<longrightarrow>
           \<not> contains (dimensions (heap s (ui_stack s ! j))) (dimensions (heap s (ui_stack s ! l)))"
    and "\<forall>j. u < j \<and> j < length (ui_stack s) \<longrightarrow>
           \<not> contains (dimensions (heap s (ui_stack s ! j))) (dimensions (heap s (ui_stack s ! u)))"
  shows "invalidated (heap (invalidation_consistency_and_optimization s) (ui_stack s ! u)) \<and>
         invalidated (heap (invalidation_consistency_and_optimization s) (ui_stack s ! l))"
proof -
  have "invalidated (fold (lower_loop (ui_stack s) (first_enabled (heap s) (ui_stack s)))
                       [first_enabled (heap s) (ui_stack s)..<length (ui_stack s)] (heap s)
                       (ui_stack s ! u)) \<and>
        invalidated (fold (lower_loop (ui_stack s) (first_enabled (heap s) (ui_stack s)))
                       [first_enabled (heap s) (ui_stack s)..<length (ui_stack s)] (heap s)
                       (ui_stack s ! l))"
    using assms(1,2,3,4,6,7)
  proof (rule upper_set)
    fix j assume "l < j" "j < length (ui_stack s)"
    with assms(10) show "\<not> contains (dimensions (heap s (ui_stack s ! j)))
                             (dimensions (heap s (ui_stack s ! l)))" by simp
  next
    fix j assume "u < j" "j < length (ui_stack s)"
    with assms(11) show "\<not> contains (dimensions (heap s (ui_stack s ! j)))
                             (dimensions (heap s (ui_stack s ! u)))" by simp
  qed
  then show ?thesis
    by (simp add: invalidation_consistency_and_optimization_def consistency_heap_def Let_def)
qed

theorem cascade_rule_witness:
  "distinct (ui_stack two_overlapping) \<and>
   first_enabled (heap two_overlapping) (ui_stack two_overlapping) \<le> 0 \<and>
   (0::nat) < 1 \<and> 1 < length (ui_stack two_overlapping) \<and>
   \<not> invalidated (heap two_overlapping (ui_stack two_overlapping ! 1)) \<and>
   invalidated (heap two_overlapping (ui_stack two_overlapping ! 0)) \<and>
   overlap (dimensions (heap two_overlapping (ui_stack two_overlapping ! 1)))
     (dimensions (heap two_overlapping (ui_stack two_overlapping ! 0))) \<and>
   invalidated (heap (invalidation_consistency_and_optimization two_overlapping)
                  (ui_stack two_overlapping ! 1)) \<and>
   invalidated (heap (invalidation_consistency_and_optimization two_overlapping)
                  (ui_stack two_overlapping ! 0))"
proof -
  let ?s = two_overlapping
  have h: "distinct (ui_stack ?s)"
    "first_enabled (heap ?s) (ui_stack ?s) \<le> 0"
    "(0::nat) < 1" "1 < length (ui_stack ?s)"
    "\<not> invalidated (heap ?s (ui_stack ?s ! 1))"
    "invalidated (heap ?s (ui_stack ?s ! 0))"
    "overlap (dimensions (heap ?s (ui_stack ?s ! 1))) (dimensions (heap ?s (ui_stack ?s ! 0)))"
    "\<not> contains (dimensions (heap ?s (ui_stack ?s ! 1))) (dimensions (heap ?s (ui_stack ?s ! 0)))"
    "\<not> contains (dimensions (heap ?s (ui_stack ?s ! 0))) (dimensions (heap ?s (ui_stack ?s ! 1)))"
    "\<forall>j. 0 < j \<and> j < length (ui_stack ?s) \<longrightarrow>
           \<not> contains (dimensions (heap ?s (ui_stack ?s ! j))) (dimensions (heap ?s (ui_stack ?s ! 0)))"
    "\<forall>j. 1 < j \<and> j < length (ui_stack ?s) \<longrightarrow>
           \<not> contains (dimensions (heap ?s (ui_stack ?s ! j))) (dimensions (heap ?s (ui_stack ?s ! 1)))"
    by (auto simp add: two_overlapping_def state_defs first_enabled_def contains_def overlap_def
          less_Suc_eq)
  from h(1-7) cascade_rule [OF h] show ?thesis by blast
qed

text \<open>
  C1 as stated fails in \<open>three_cascading\<close> for the bottom and the top layer: they satisfy
  every condition of the claim, but the middle layer contains the bottom one, is
  invalidated by it and then occludes it, so the bottom layer ends the pass clean.
\<close>

theorem cascade_rule_counterexample:
  "distinct (ui_stack three_cascading) \<and>
   first_enabled (heap three_cascading) (ui_stack three_cascading) \<le> 0 \<and>
   (0::nat) < 2 \<and> 2 < length (ui_stack three_cascading) \<and>
   \<not> invalidated (heap three_cascading (ui_stack three_cascading ! 2)) \<and>
   invalidated (heap three_cascading (ui_stack three_cascading ! 0)) \<and>
   overlap (dimensions (heap three_cascading (ui_stack three_cascading ! 2)))
     (dimensions (heap three_cascading (ui_stack three_cascading ! 0))) \<and>
   \<not> contains (dimensions (heap three_cascading (ui_stack three_cascading ! 2)))
       (dimensions (heap three_cascading (ui_stack three_cascading ! 0))) \<and>
   \<not> contains (dimensions (heap three_cascading (ui_stack three_cascading ! 0)))
       (dimensions (heap three_cascading (ui_stack three_cascading ! 2))) \<and>
   \<not> invalidated (heap (invalidation_consistency_and_optimization three_cascading)
                    (ui_stack three_cascading ! 0))"
  by (simp add: three_cascading_def state_defs pass_defs)

text \<open>
  C2, as amended. Let \<open>l < u\<close> be two indices of the enabled range of a stack without
  repeated addresses, both layers invalidated and the rectangle of \<open>u\<close> containing that
  of \<open>l\<close>. Then after the pass the layer at \<open>l\<close> is clean; the layer at \<open>u\<close> is still
  invalidated if no layer above \<open>u\<close> has a rectangle containing that of \<open>u\<close>.
\<close>

theorem occlusion_rule:
  assumes "distinct (ui_stack s)"
    and "first_enabled (heap s) (ui_stack s) \<le> l" and "l < u" and "u < length (ui_stack s)"
    and "invalidated (heap s (ui_stack s ! l))"
    and "invalidated (heap s (ui_stack s ! u))"
    and "contains (dimensions (heap s (ui_stack s ! u))) (dimensions (heap s (ui_stack s ! l)))"
  shows "\<not> invalidated (heap (invalidation_consistency_and_optimization s) (ui_stack s ! l)) \<and>
         ((\<forall>j. u < j \<and> j < length (ui_stack s) \<longrightarrow>
                \<not> contains (dimensions (heap s (ui_stack s ! j)))
                    (dimensions (heap s (ui_stack s ! u))))
          \<longrightarrow> invalidated (heap (invalidation_consistency_and_optimization s) (ui_stack s ! u)))"
proof
  show "\<not> invalidated (heap (invalidation_consistency_and_optimization s) (ui_stack s ! l))"
    using lower_cleared [OF assms(1,2,3,4,6,7)]
    by (simp add: invalidation_consistency_and_optimization_def consistency_heap_def Let_def)
next
  show "(\<forall>j. u < j \<and> j < length (ui_stack s) \<longrightarrow>
                \<not> contains (dimensions (heap s (ui_stack s ! j)))
                    (dimensions (heap s (ui_stack s ! u))))
          \<longrightarrow> invalidated (heap (invalidation_consistency_and_optimization s) (ui_stack s ! u))"
  proof
    assume free: "\<forall>j. u < j \<and> j < length (ui_stack s) \<longrightarrow>
                \<not> contains (dimensions (heap s (ui_stack s ! j)))
                    (dimensions (heap s (ui_stack s ! u)))"
    have "invalidated (consistency_heap (ui_stack s) (heap s) (ui_stack s ! u))"
    proof (rule consistency_heap_flag_kept)
      show "invalidated (heap s (ui_stack s ! u))" by (rule assms(6))
    next
      fix il iu
      assume *: "il < iu" "iu < length (ui_stack s)" "ui_stack s ! il = ui_stack s ! u"
      with assms(1,4) have "il = u" by (simp add: nth_eq_iff_index_eq)
      with * free
      show "\<not> contains (dimensions (heap s (ui_stack s ! iu)))
                (dimensions (heap s (ui_stack s ! u)))" by simp
    qed
    then show "invalidated (heap (invalidation_consistency_and_optimization s) (ui_stack s ! u))"
      by (simp add: invalidation_consistency_and_optimization_def)
  qed
qed

theorem occlusion_rule_witness:
  "distinct (ui_stack two_nested) \<and>
   first_enabled (heap two_nested) (ui_stack two_nested) \<le> 0 \<and>
   (0::nat) < 1 \<and> 1 < length (ui_stack two_nested) \<and>
   invalidated (heap two_nested (ui_stack two_nested ! 0)) \<and>
   invalidated (heap two_nested (ui_stack two_nested ! 1)) \<and>
   contains (dimensions (heap two_nested (ui_stack two_nested ! 1)))
     (dimensions (heap two_nested (ui_stack two_nested ! 0))) \<and>
   \<not> invalidated (heap (invalidation_consistency_and_optimization two_nested)
                    (ui_stack two_nested ! 0)) \<and>
   invalidated (heap (invalidation_consistency_and_optimization two_nested)
                  (ui_stack two_nested ! 1))"
proof -
  have h: "distinct (ui_stack two_nested)"
    "first_enabled (heap two_nested) (ui_stack two_nested) \<le> 0"
    "(0::nat) < 1" "1 < length (ui_stack two_nested)"
    "invalidated (heap two_nested (ui_stack two_nested ! 0))"
    "invalidated (heap two_nested (ui_stack two_nested ! 1))"
    "contains (dimensions (heap two_nested (ui_stack two_nested ! 1)))
       (dimensions (heap two_nested (ui_stack two_nested ! 0)))"
    by (simp_all add: two_nested_def state_defs first_enabled_def contains_def)
  have top: "\<forall>j. 1 < j \<and> j < length (ui_stack two_nested) \<longrightarrow>
                \<not> contains (dimensions (heap two_nested (ui_stack two_nested ! j)))
                    (dimensions (heap two_nested (ui_stack two_nested ! 1)))"
    by (auto simp add: two_nested_def state_defs less_Suc_eq)
  from h top occlusion_rule [OF h] show ?thesis by blast
qed

text \<open>
  C2 as stated fails in \<open>three_nested\<close> for the bottom and the middle layer: the middle
  layer contains the bottom one and both are invalidated, but the top layer contains the
  middle one and clears its flag in turn.
\<close>

theorem occlusion_rule_counterexample:
  "distinct (ui_stack three_nested) \<and>
   first_enabled (heap three_nested) (ui_stack three_nested) \<le> 0 \<and>
   (0::nat) < 1 \<and> 1 < length (ui_stack three_nested) \<and>
   invalidated (heap three_nested (ui_stack three_nested ! 0)) \<and>
   invalidated (heap three_nested (ui_stack three_nested ! 1)) \<and>
   contains (dimensions (heap three_nested (ui_stack three_nested ! 1)))
     (dimensions (heap three_nested (ui_stack three_nested ! 0))) \<and>
   \<not> invalidated (heap (invalidation_consistency_and_optimization three_nested)
                    (ui_stack three_nested ! 1))"
  by (simp add: three_nested_def state_defs pass_defs)

subsection \<open>Region invalidation\<close>

text \<open>
  C3, as amended. With a degenerate rectangle (\<open>p_min.x >= p_max.x\<close> or
  \<open>p_min.y >= p_max.y\<close>) \<open>invalidate\<close> changes nothing at all when
  \<open>reenable_uis_below\<close> is false, and is exactly one run of the consistency pass when it
  is true.
\<close>

theorem invalidate_degenerate:
  assumes "degenerate rect"
  shows "invalidate rect False s = s \<and>
         invalidate rect True s = invalidation_consistency_and_optimization s"
  using assms by (simp add: invalidate_def degenerate_def)

theorem invalidate_degenerate_witness:
  "degenerate (box 3 3 3 3) \<and>
   invalidate (box 3 3 3 3) False two_overlapping = two_overlapping \<and>
   invalidate (box 3 3 3 3) True two_overlapping
     = invalidation_consistency_and_optimization two_overlapping"
proof -
  have d: "degenerate (box 3 3 3 3)"
    by (simp add: degenerate_def box_def mk_rectangle_def mk_point_def)
  from d invalidate_degenerate [OF d, of two_overlapping] show ?thesis by simp
qed

text \<open>
  C3 as stated fails when \<open>reenable_uis_below\<close> is true: the rectangle \<open>(0,0)-(0,0)\<close>
  is degenerate, the upper layer of \<open>two_overlapping\<close> is clean before the call and
  invalidated after it, because the consistency pass ran.
\<close>

theorem invalidate_degenerate_counterexample:
  "degenerate (box 0 0 0 0) \<and>
   \<not> invalidated (heap two_overlapping 1) \<and>
   invalidated (heap (invalidate (box 0 0 0 0) True two_overlapping) 1)"
  by (simp add: two_overlapping_def state_defs pass_defs invalidate_def degenerate_def)

text \<open>
  C5. For a non-degenerate rectangle, \<open>invalidate\<close> is the consistency pass run on the
  state left by the marking loop, and the marking loop sets the flag of exactly those
  layers anywhere in the stack that were not yet invalidated and whose rectangle
  overlaps \<open>rect\<close> (no layer is skipped for being below the enabled range), leaving
  every other object as it was.
\<close>

theorem invalidate_marks_whole_stack:
  assumes "\<not> degenerate rect"
  shows "invalidate rect reenable_uis_below s =
           invalidation_consistency_and_optimization
             (s\<lparr>heap := mark_overlapping rect (ui_stack s) (heap s)\<rparr>) \<and>
         (\<forall>a. mark_overlapping rect (ui_stack s) (heap s) a =
            (if a \<in> set (ui_stack s) \<and> \<not> invalidated (heap s a) \<and>
                overlap (dimensions (heap s a)) rect
             then (heap s a)\<lparr>invalidated := True\<rparr> else heap s a))"
  using assms by (simp add: invalidate_def degenerate_def mark_overlapping_eq)

text \<open>
  In \<open>one_disabled\<close> the lower layer is below the enabled range (\<open>first_enabled\<close> is 1);
  a rectangle inside it still marks it.
\<close>

theorem invalidate_marks_whole_stack_witness:
  "\<not> degenerate (box 1 1 2 2) \<and>
   first_enabled (heap one_disabled) (ui_stack one_disabled) = 1 \<and>
   \<not> invalidated (heap one_disabled 0) \<and>
   invalidated (mark_overlapping (box 1 1 2 2) (ui_stack one_disabled) (heap one_disabled) 0) \<and>
   invalidate (box 1 1 2 2) False one_disabled =
     invalidation_consistency_and_optimization
       (one_disabled\<lparr>heap := mark_overlapping (box 1 1 2 2) (ui_stack one_disabled)
                                  (heap one_disabled)\<rparr>)"
proof -
  have d: "\<not> degenerate (box 1 1 2 2)"
    by (simp add: degenerate_def box_def mk_rectangle_def mk_point_def)
  have e: "first_enabled (heap one_disabled) (ui_stack one_disabled) = 1"
    "\<not> invalidated (heap one_disabled 0)"
    "0 \<in> set (ui_stack one_disabled)"
    "overlap (dimensions (heap one_disabled 0)) (box 1 1 2 2)"
    by (simp_all add: one_disabled_def state_defs first_enabled_def overlap_def)
  from d e invalidate_marks_whole_stack [OF d, of False one_disabled] show ?thesis by simp
qed

subsection \<open>Layers below the enabled range\<close>

text \<open>
  C9. Every live layer is on the stack once, so the stack has no repeated address. For a
  layer at an index below \<open>first_enabled\<close> whose flag is set, the flag is still set after
  the consistency pass, after \<open>invalidate\<close> with any rectangle and either value of
  \<open>reenable_uis_below\<close>, and after \<open>invalidate_ui\<close> on any layer.
\<close>

theorem disabled_layers_never_cleared:
  assumes "distinct (ui_stack s)"
    and "i < first_enabled (heap s) (ui_stack s)"
    and "invalidated (heap s (ui_stack s ! i))"
  shows "invalidated (heap (invalidation_consistency_and_optimization s) (ui_stack s ! i)) \<and>
         invalidated (heap (invalidate rect reenable_uis_below s) (ui_stack s ! i)) \<and>
         invalidated (heap (invalidate_ui self s) (ui_stack s ! i))"
proof -
  let ?stk = "ui_stack s" and ?L = "ui_stack s ! i"
  have untouched: "consistency_heap ?stk h ?L = h ?L"
    if "\<And>a. disabling_uis_below (h a) = disabling_uis_below (heap s a)" for h
  proof (rule consistency_heap_untouched)
    fix j assume "first_enabled h ?stk \<le> j" "j < length ?stk"
    moreover have "first_enabled h ?stk = first_enabled (heap s) ?stk"
      using that by (rule first_enabled_cong)
    ultimately show "?stk ! j \<noteq> ?L"
      using below_first_enabled_not_in_range(2) [OF assms(1,2)] by simp
  qed
  have pass: "invalidated (heap (invalidation_consistency_and_optimization s) ?L)"
    using untouched [of "heap s"] assms(3)
    by (simp add: invalidation_consistency_and_optimization_def)
  have "invalidated (mark_overlapping rect ?stk (heap s) ?L)"
    using assms(3) by (simp add: mark_overlapping_flag)
  then have region: "invalidated (heap (invalidate rect reenable_uis_below s) ?L)"
    using untouched [of "mark_overlapping rect ?stk (heap s)"] pass assms(3)
    by (simp add: invalidate_def invalidation_consistency_and_optimization_def)
  have "invalidated (set_invalidated self True (heap s) ?L)"
    using assms(3) by (simp add: set_invalidated_def)
  then have single: "invalidated (heap (invalidate_ui self s) ?L)"
    using untouched [of "set_invalidated self True (heap s)"] assms(3)
    by (simp add: invalidate_ui_def Let_def invalidation_consistency_and_optimization_def
          set_invalidated_def)
  from pass region single show ?thesis by simp
qed

theorem disabled_layers_never_cleared_witness:
  "distinct (ui_stack one_disabled_dirty) \<and>
   0 < first_enabled (heap one_disabled_dirty) (ui_stack one_disabled_dirty) \<and>
   invalidated (heap one_disabled_dirty (ui_stack one_disabled_dirty ! 0)) \<and>
   invalidated (heap (invalidation_consistency_and_optimization one_disabled_dirty)
                  (ui_stack one_disabled_dirty ! 0)) \<and>
   invalidated (heap (invalidate (box 0 0 20 20) True one_disabled_dirty)
                  (ui_stack one_disabled_dirty ! 0)) \<and>
   invalidated (heap (invalidate_ui 1 one_disabled_dirty) (ui_stack one_disabled_dirty ! 0))"
proof -
  have h: "distinct (ui_stack one_disabled_dirty)"
    "0 < first_enabled (heap one_disabled_dirty) (ui_stack one_disabled_dirty)"
    "invalidated (heap one_disabled_dirty (ui_stack one_disabled_dirty ! 0))"
    by (simp_all add: one_disabled_dirty_def state_defs first_enabled_def)
  from h disabled_layers_never_cleared [OF h, of "box 0 0 20 20" True 1] show ?thesis by simp
qed

subsection \<open>Redrawing in test mode\<close>

text \<open>
  C10. In test mode and with a non-empty stack, \<open>redraw\<close> returns the state it was given
  with the invalidated flag of the topmost layer set, and nothing else changed: the flag
  is written before \<open>redraw_invalidated\<close> returns early.
\<close>

theorem redraw_in_test_mode:
  assumes "test_mode s" and "ui_stack s \<noteq> []"
  shows "redraw cbs s =
           s\<lparr>heap := (heap s)(last (ui_stack s) :=
                     (heap s (last (ui_stack s)))\<lparr>invalidated := True\<rparr>)\<rparr>"
  using assms by (simp add: redraw_def redraw_invalidated_def set_invalidated_def)

theorem redraw_in_test_mode_witness:
  "test_mode headless \<and> ui_stack headless \<noteq> [] \<and> last (ui_stack headless) = 1 \<and>
   \<not> invalidated (heap headless 1) \<and>
   invalidated (heap (redraw idle_callbacks headless) 1) \<and>
   redraw_invalidated idle_callbacks headless = headless"
proof -
  have h: "test_mode headless" "ui_stack headless \<noteq> []"
    by (simp_all add: headless_def state_defs)
  have e: "last (ui_stack headless) = 1" "\<not> invalidated (heap headless 1)"
    by (simp_all add: headless_def state_defs)
  from h e redraw_in_test_mode [OF h, of idle_callbacks] show ?thesis
    by (simp add: redraw_invalidated_def)
qed

subsection \<open>Invalidating one layer\<close>

text \<open>
  C6. \<open>invalidate_ui\<close> returns the state unchanged if the layer is already invalidated,
  or is not on the stack, or some layer at a higher index than it has a rectangle that
  contains the layer's rectangle. In every other case it is the consistency pass run
  after setting the layer's flag, and it is not a no-op: the layer's flag was clear and
  is set in the result.
\<close>

theorem invalidate_ui_noop_cases:
  "if invalidated (heap s self) \<or> self \<notin> set (ui_stack s) \<or>
      (\<exists>j<length (ui_stack s). \<exists>i<j. ui_stack s ! i = self \<and>
         contains (dimensions (heap s (ui_stack s ! j))) (dimensions (heap s self)))
   then invalidate_ui self s = s
   else invalidate_ui self s =
          invalidation_consistency_and_optimization
            (s\<lparr>heap := (heap s)(self := (heap s self)\<lparr>invalidated := True\<rparr>)\<rparr>) \<and>
        \<not> invalidated (heap s self) \<and>
        invalidated (heap (invalidate_ui self s) self)"
  using invalidate_ui_cases [of s self] by (simp split: if_splits)

text \<open>
  In \<open>small_below_large\<close> the lower layer lies inside the upper one, so invalidating it
  does nothing; invalidating the upper one sets its flag.
\<close>

theorem invalidate_ui_noop_cases_witness:
  "invalidate_ui 0 small_below_large = small_below_large \<and>
   \<not> invalidated (heap small_below_large 1) \<and>
   invalidated (heap (invalidate_ui 1 small_below_large) 1)"
proof -
  let ?s = small_below_large
  have a: "invalidated (heap ?s 0) \<or> 0 \<notin> set (ui_stack ?s) \<or>
      (\<exists>j<length (ui_stack ?s). \<exists>i<j. ui_stack ?s ! i = 0 \<and>
         contains (dimensions (heap ?s (ui_stack ?s ! j))) (dimensions (heap ?s 0)))"
    by (intro disjI2, rule exI [of _ 1]) (simp add: small_below_large_def state_defs contains_def)
  have b: "\<not> (invalidated (heap ?s 1) \<or> 1 \<notin> set (ui_stack ?s) \<or>
      (\<exists>j<length (ui_stack ?s). \<exists>i<j. ui_stack ?s ! i = 1 \<and>
         contains (dimensions (heap ?s (ui_stack ?s ! j))) (dimensions (heap ?s 1))))"
    by (auto simp add: small_below_large_def state_defs less_Suc_eq)
  have "invalidate_ui 0 ?s = ?s"
    by (rule invalidate_ui_noop_cases [of ?s 0, unfolded if_P [OF a]])
  moreover
  have "\<not> invalidated (heap ?s 1) \<and> invalidated (heap (invalidate_ui 1 ?s) 1)"
    by (rule invalidate_ui_noop_cases [of ?s 1, unfolded if_not_P [OF b], THEN conjunct2])
  ultimately show ?thesis by simp
qed

text \<open>
  C7. A second \<open>invalidate_ui\<close> on the same layer, right after the first, returns the
  state the first one produced: every flag, rectangle and the stack are the same.
\<close>

theorem invalidate_ui_idempotent:
  "invalidate_ui self (invalidate_ui self s) = invalidate_ui self s"
proof (cases "invalidated (heap s self) \<or> self \<notin> set (ui_stack s) \<or>
      (\<exists>j<length (ui_stack s). \<exists>i<j. ui_stack s ! i = self \<and>
         contains (dimensions (heap s (ui_stack s ! j))) (dimensions (heap s self)))")
  case True
  then have "invalidate_ui self s = s" by (rule invalidate_ui_cases(1))
  then show ?thesis by simp
next
  case False
  then have "invalidated (heap (invalidate_ui self s) self)" by (rule invalidate_ui_cases(3))
  then show ?thesis by (simp add: invalidate_ui_def [of self "invalidate_ui self s"])
qed

theorem invalidate_ui_idempotent_witness:
  "invalidate_ui 1 (invalidate_ui 1 small_below_large) = invalidate_ui 1 small_below_large \<and>
   invalidate_ui 1 small_below_large \<noteq> small_below_large"
proof -
  have "invalidated (heap (invalidate_ui 1 small_below_large) 1)"
    by (simp add: small_below_large_def state_defs pass_defs invalidate_ui_def)
  moreover have "\<not> invalidated (heap small_below_large 1)"
    by (simp add: small_below_large_def state_defs)
  ultimately have "invalidate_ui 1 small_below_large \<noteq> small_below_large"
    by auto
  with invalidate_ui_idempotent [of 1 small_below_large] show ?thesis by simp
qed

subsection \<open>Positioning a layer\<close>

text \<open>
  C8, as amended. Let \<open>new_dimensions\<close> be the rectangle that \<open>position\<close> computes: from
  \<open>topleft\<close> to \<open>topleft + size\<close> in a build without \<open>TILES\<close>, and from
  \<open>window_pos_pixel\<close> to \<open>window_pos_pixel + window_size_pixel\<close> of
  \<open>get_window_dimensions( topleft, size )\<close> in a build with it. Then \<open>position\<close> is
  \<open>invalidate\<close>, called with the rectangle the layer had before and
  \<open>reenable_uis_below = false\<close>, on the state in which the layer already has
  \<open>new_dimensions\<close> and its flag set. Afterwards the layer has \<open>new_dimensions\<close>. Its flag
  is still set if the stack has no repeated address and no layer above it has a
  rectangle containing \<open>new_dimensions\<close> (otherwise the consistency pass inside
  \<open>invalidate\<close> may clear it again).
\<close>

theorem position_effect:
  assumes "new_dimensions =
             (case tiles of
                Some get_window_dimensions \<Rightarrow>
                  mk_rectangle (window_pos_pixel (get_window_dimensions topleft sz))
                    (point_add (window_pos_pixel (get_window_dimensions topleft sz))
                               (window_size_pixel (get_window_dimensions topleft sz)))
              | None \<Rightarrow> mk_rectangle topleft (point_add topleft sz))"
  shows "position tiles self topleft sz s =
           invalidate (dimensions (heap s self)) False
             (s\<lparr>heap := (heap s)(self := (heap s self)
                            \<lparr>dimensions := new_dimensions, invalidated := True\<rparr>)\<rparr>) \<and>
         dimensions (heap (position tiles self topleft sz s) self) = new_dimensions \<and>
         (distinct (ui_stack s) \<and>
          (\<forall>j<length (ui_stack s). \<forall>i<j. ui_stack s ! i = self \<longrightarrow>
              \<not> contains (dimensions (heap s (ui_stack s ! j))) new_dimensions)
          \<longrightarrow> invalidated (heap (position tiles self topleft sz s) self))"
proof -
  let ?new = new_dimensions
  let ?s2 = "s\<lparr>heap := (heap s)(self := (heap s self)\<lparr>dimensions := ?new, invalidated := True\<rparr>)\<rparr>"
  have eq: "position tiles self topleft sz s = invalidate (dimensions (heap s self)) False ?s2"
    unfolding assms
    by (cases tiles) (simp_all add: position_def Let_def set_dimensions_def set_invalidated_def)
  have dims: "dimensions (heap (position tiles self topleft sz s) self) = ?new"
    unfolding eq by simp
  have flag: "invalidated (heap (position tiles self topleft sz s) self)"
    if d: "distinct (ui_stack s)"
      and free: "\<forall>j<length (ui_stack s). \<forall>i<j. ui_stack s ! i = self \<longrightarrow>
        \<not> contains (dimensions (heap s (ui_stack s ! j))) ?new"
    unfolding eq
  proof (rule invalidate_flag_kept)
    show "invalidated (heap ?s2 self)" by simp
  next
    fix il iu
    assume *: "il < iu" "iu < length (ui_stack ?s2)" "ui_stack ?s2 ! il = self"
    with d have "ui_stack s ! iu \<noteq> self" by (auto simp add: nth_eq_iff_index_eq)
    moreover from * free have "\<not> contains (dimensions (heap s (ui_stack s ! iu))) ?new"
      by simp
    ultimately
    show "\<not> contains (dimensions (heap ?s2 (ui_stack ?s2 ! iu))) (dimensions (heap ?s2 self))"
      by simp
  qed
  from eq dims flag show ?thesis by blast
qed

text \<open>
  The upper layer of \<open>small_below_large\<close> is moved, without \<open>TILES\<close> and with cells of
  two by two pixels; nothing is above it.
\<close>

theorem position_effect_witness:
  "distinct (ui_stack small_below_large) \<and>
   dimensions (heap (position None 1 (mk_point 20 20) (mk_point 5 5) small_below_large) 1)
     = box 20 20 25 25 \<and>
   invalidated (heap (position None 1 (mk_point 20 20) (mk_point 5 5) small_below_large) 1) \<and>
   dimensions (heap (position (Some two_pixel_cells) 1 (mk_point 20 20) (mk_point 5 5)
                       small_below_large) 1)
     = box 40 40 50 50 \<and>
   invalidated (heap (position (Some two_pixel_cells) 1 (mk_point 20 20) (mk_point 5 5)
                        small_below_large) 1)"
proof -
  let ?s = small_below_large
  have d: "distinct (ui_stack ?s)" by (simp add: small_below_large_def state_defs)
  have new: "box 20 20 25 25 =
      (case None of
         Some get_window_dimensions \<Rightarrow>
           mk_rectangle (window_pos_pixel (get_window_dimensions (mk_point 20 20) (mk_point 5 5)))
             (point_add (window_pos_pixel (get_window_dimensions (mk_point 20 20) (mk_point 5 5)))
                        (window_size_pixel (get_window_dimensions (mk_point 20 20) (mk_point 5 5))))
       | None \<Rightarrow> mk_rectangle (mk_point 20 20) (point_add (mk_point 20 20) (mk_point 5 5)))"
    by (simp add: box_def point_add_def mk_point_def)
  have new_tiles: "box 40 40 50 50 =
      (case Some two_pixel_cells of
         Some get_window_dimensions \<Rightarrow>
           mk_rectangle (window_pos_pixel (get_window_dimensions (mk_point 20 20) (mk_point 5 5)))
             (point_add (window_pos_pixel (get_window_dimensions (mk_point 20 20) (mk_point 5 5)))
                        (window_size_pixel (get_window_dimensions (mk_point 20 20) (mk_point 5 5))))
       | None \<Rightarrow> mk_rectangle (mk_point 20 20) (point_add (mk_point 20 20) (mk_point 5 5)))"
    by (simp add: box_def point_add_def mk_point_def two_pixel_cells_def)
  have free: "\<forall>j<length (ui_stack ?s). \<forall>i<j. ui_stack ?s ! i = 1 \<longrightarrow>
        \<not> contains (dimensions (heap ?s (ui_stack ?s ! j))) (box 20 20 25 25)"
    "\<forall>j<length (ui_stack ?s). \<forall>i<j. ui_stack ?s ! i = 1 \<longrightarrow>
        \<not> contains (dimensions (heap ?s (ui_stack ?s ! j))) (box 40 40 50 50)"
    by (auto simp add: small_below_large_def state_defs less_Suc_eq)
  from d free position_effect [OF new, of 1 ?s] position_effect [OF new_tiles, of 1 ?s]
  show ?thesis by blast
qed

text \<open>
  C8 as stated fails for the lower layer of \<open>small_below_large\<close>, moved to
  \<open>(1,1)-(3,3)\<close> (to \<open>(2,2)-(6,6)\<close> with cells of two by two pixels): its old rectangle
  overlaps the upper layer, which is therefore invalidated, contains the new rectangle
  and occludes the layer, so \<open>position\<close> returns with the layer's flag clear.
\<close>

theorem position_effect_counterexample:
  "dimensions (heap (position None 0 (mk_point 1 1) (mk_point 2 2) small_below_large) 0)
     = box 1 1 3 3 \<and>
   \<not> invalidated (heap (position None 0 (mk_point 1 1) (mk_point 2 2) small_below_large) 0) \<and>
   dimensions (heap (position (Some two_pixel_cells) 0 (mk_point 1 1) (mk_point 2 2)
                       small_below_large) 0)
     = box 2 2 6 6 \<and>
   \<not> invalidated (heap (position (Some two_pixel_cells) 0 (mk_point 1 1) (mk_point 2 2)
                          small_below_large) 0)"
  by (simp add: small_below_large_def state_defs pass_defs position_def set_dimensions_def
        point_add_def invalidate_def mark_overlapping_def two_pixel_cells_def Let_def)

subsection \<open>The redraw phase\<close>




end
